theory Spec2Isabelle
  imports Main "HOL-Library.Sublist"
begin

section \<open>Strings, bytes and errors\<close>

text \<open>
  Go strings and byte slices are sequences of bytes; both are modelled by \<open>string\<close>
  (a list of 8-bit characters).  Errors are values.
\<close>

type_synonym bytes = string

datatype error = ErrNotExist | EOF | ErrRead | ErrOpen | DepthExceeded | NameCollision

definition TAB :: char where "TAB = CHR 0x09"
definition NL :: char where "NL = CHR 0x0A"
definition CR :: char where "CR = CHR 0x0D"

section \<open>The two regular expressions\<close>

text \<open>
  \<open>reHeader\<close> and \<open>reBody\<close> only use single-character classes, stars over
  single-character classes and capture groups, anchored at both ends.  A pattern is a
  list of such items; \<open>run\<close> is the backtracking matcher with the priorities of Go's
  \<open>regexp\<close> package (a star is greedy: it tries to take one more character first, and
  gives it back only if the rest of the pattern then fails).  The pattern must consume
  the whole input, which is what the anchors \<open>^\<close> and \<open>$\<close> ask for.
\<close>

datatype item = Cls "char \<Rightarrow> bool" | Star "char \<Rightarrow> bool" | GOpen | GClose

definition oneof :: "string \<Rightarrow> char \<Rightarrow> bool" where
  "oneof cs c = (c \<in> set cs)"

definition noneof :: "string \<Rightarrow> char \<Rightarrow> bool" where
  "noneof cs c = (c \<notin> set cs)"

definition push :: "char \<Rightarrow> string option \<Rightarrow> string option" where
  "push c cur = (case cur of None \<Rightarrow> None | Some g \<Rightarrow> Some (g @ [c]))"

fun run :: "item list \<Rightarrow> string \<Rightarrow> string option \<Rightarrow> string list \<Rightarrow> string list option" where
  "run [] [] cur gs = Some gs"
| "run [] (c # cs) cur gs = None"
| "run (Cls p # its) [] cur gs = None"
| "run (Cls p # its) (c # cs) cur gs = (if p c then run its cs (push c cur) gs else None)"
| "run (Star p # its) [] cur gs = run its [] cur gs"
| "run (Star p # its) (c # cs) cur gs =
     (if p c then
        (case run (Star p # its) cs (push c cur) gs of
           Some r \<Rightarrow> Some r
         | None \<Rightarrow> run its (c # cs) cur gs)
      else run its (c # cs) cur gs)"
| "run (GOpen # its) s cur gs = run its s (Some []) gs"
| "run (GClose # its) s cur gs = run its s None (gs @ [case cur of Some g \<Rightarrow> g | None \<Rightarrow> []])"

definition FindStringSubmatch :: "item list \<Rightarrow> string \<Rightarrow> string list option" where
  \<comment> \<open>element 0 is the whole match, which for an anchored pattern is the whole input\<close>
  "FindStringSubmatch re s = run re s None [s]"

definition MatchString :: "item list \<Rightarrow> string \<Rightarrow> bool" where
  "MatchString re s = (FindStringSubmatch re s \<noteq> None)"

definition reHeader :: "item list" where
  \<comment> \<open>\<^verbatim>\<open>^[ \t]*<[hH]([1-6])[^>]*>([^<]*)</[hH]([1-6])>[ \t]*$\<close>\<close>
  "reHeader =
     [Star (oneof [CHR '' '', TAB]), Cls (oneof ''<''), Cls (oneof ''hH''),
      GOpen, Cls (oneof ''123456''), GClose,
      Star (noneof ''>''), Cls (oneof ''>''),
      GOpen, Star (noneof ''<''), GClose,
      Cls (oneof ''<''), Cls (oneof ''/''), Cls (oneof ''hH''),
      GOpen, Cls (oneof ''123456''), GClose,
      Cls (oneof ''>''), Star (oneof [CHR '' '', TAB])]"

definition reBody :: "item list" where
  \<comment> \<open>\<^verbatim>\<open>^[ \t]*<(?i)body(?-i)[^>]*>$\<close>\<close>
  "reBody =
     [Star (oneof [CHR '' '', TAB]), Cls (oneof ''<''),
      Cls (oneof ''bB''), Cls (oneof ''oO''), Cls (oneof ''dD''), Cls (oneof ''yY''),
      Star (noneof ''>''), Cls (oneof ''>'')]"

section \<open>The heading detector\<close>

definition byte_sub :: "nat \<Rightarrow> nat \<Rightarrow> nat" where
  \<comment> \<open>subtraction of two bytes, wrapping as Go's \<open>uint8\<close> does\<close>
  "byte_sub a b = (a + 256 - b) mod 256"

definition checkNewChapter :: "string \<Rightarrow> int \<times> string" where
  "checkNewChapter l =
     (case FindStringSubmatch reHeader l of
        Some [m0, m1, m2, m3] \<Rightarrow>
          (if m1 = m3 then
             (case m1 of
                d # _ \<Rightarrow> (int (byte_sub (of_char d) (of_char CHR ''0'')), m2)
              | [] \<Rightarrow> (0, []))
           else (0, []))
      | _ \<Rightarrow> (0, []))"

section \<open>Readers\<close>

text \<open>
  An opened entry (\<open>io.ReadCloser\<close>) holds bytes, and reading it may end with an
  error.  It is read in one of two ways: whole, by \<open>ioutil.ReadAll\<close>, which returns
  the bytes read and the error that stopped it, if any; or line by line, by
  \<open>ReadLine\<close> on a \<open>bufio.Reader\<close>.
\<close>

record ReadCloser =
  rc_data :: bytes
  rc_fail :: "error option"

definition ReadAll :: "ReadCloser \<Rightarrow> bytes \<times> error option" where
  "ReadAll f = (rc_data f, rc_fail f)"

text \<open>
  \<open>bufio.NewReader\<close> gives the reader a buffer of 4096 bytes.  \<open>ReadLine br\<close>, for the
  bytes \<open>br\<close> not yet read, is the result of one call and the bytes left after it.
  When a newline is among the bytes that fit the buffer, the result is the line before
  it, without the newline and without a carriage return just before it.  When the
  buffer fills up with no newline in it, the result is the whole buffer with
  \<open>isPrefix\<close> set, or the buffer without its last byte when this is a carriage
  return, which is then left to the next call.  At the end of the data the bytes left
  are returned as they are, and after them \<open>io.EOF\<close>.  Read failures other than the
  end of the data while reading lines are outside the model.
\<close>

definition defaultBufSize :: nat where
  "defaultBufSize = 4096"

definition ReadLine :: "bytes \<Rightarrow> (string \<times> bool \<times> error option) \<times> bytes" where
  "ReadLine br =
     (let line = takeWhile (\<lambda>c. c \<noteq> NL) br in
      if NL \<in> set br \<and> length line < defaultBufSize then
        ((if line \<noteq> [] \<and> last line = CR then butlast line else line, False, None),
         drop (length line + 1) br)
      else if defaultBufSize \<le> length br then
        (if br ! (defaultBufSize - 1) = CR
         then ((take (defaultBufSize - 1) br, True, None), drop (defaultBufSize - 1) br)
         else ((take defaultBufSize br, True, None), drop defaultBufSize br))
      else if br = [] then (([], False, Some EOF), [])
      else ((br, False, None), []))"

text \<open>
  The two loops of \<open>addChaptersToBook\<close> call \<open>s, _, e := br.ReadLine()\<close> and use
  \<open>s\<close> as a line whatever \<open>isPrefix\<close> says.  \<open>ReadLines br\<close> is the list of these
  results, up to the call that reports \<open>io.EOF\<close>; \<open>rc_lines f\<close> is this list for
  the bytes of the entry \<open>f\<close>.
\<close>

function ReadLines :: "bytes \<Rightarrow> string list" where
  "ReadLines br =
     (case ReadLine br of
        ((s, isPrefix, Some e), br') \<Rightarrow> []
      | ((s, isPrefix, None), br') \<Rightarrow> s # ReadLines br')"
  by pat_completeness auto
termination
  by (relation "measure length")
     (auto simp: ReadLine_def Let_def defaultBufSize_def split: if_splits
        dest: length_pos_if_in_set)

definition rc_lines :: "ReadCloser \<Rightarrow> string list" where
  "rc_lines f = ReadLines (rc_data f)"

section \<open>File providers\<close>

definition lower_byte :: "char \<Rightarrow> char" where
  "lower_byte c =
     (case map_of (zip ''ABCDEFGHIJKLMNOPQRSTUVWXYZ'' ''abcdefghijklmnopqrstuvwxyz'') c of
        Some d \<Rightarrow> d
      | None \<Rightarrow> c)"

text \<open>
  \<open>strings.ToLower\<close> maps the letters A to Z of a string of ASCII bytes to a to z and
  keeps its other bytes.  A string with a byte outside ASCII is decoded and mapped
  code point by code point through the Unicode tables of the library
  (\<open>unicode.ToLower\<close>).  These tables are not modelled: \<open>unicode_ToLower\<close> stands
  for the result on such a string, and nothing is known of it.
\<close>

definition is_ascii :: "char \<Rightarrow> bool" where
  "is_ascii c = (\<not> digit7 c)"

definition unicode_ToLower :: "string \<Rightarrow> string" where
  "unicode_ToLower = undefined"

definition ToLower :: "string \<Rightarrow> string" where
  "ToLower s = (if list_all is_ascii s then map lower_byte s else unicode_ToLower s)"

text \<open>An archive is the list \<open>zs.rc.File\<close> of its entries, in central-directory order.\<close>

record ZipFile =
  Name :: string
  Open :: "error + ReadCloser"

text \<open>
  The directory tree under \<open>fs.base\<close>, as the program sees it: \<open>os_Open p\<close> is the
  result of \<open>os.Open(filepath.Join(fs.base, p))\<close>, and \<open>walked\<close> lists the visits that
  \<open>filepath.Walk(fs.base, walk)\<close> makes, each with the path relative to the base
  (\<open>filepath.Rel\<close>), whether it is a directory, and the error Walk reports for it.
\<close>

record WalkItem =
  w_rel :: string
  w_isDir :: bool
  w_err :: "error option"

record Folder =
  os_Open :: "string \<Rightarrow> error + ReadCloser"
  walked :: "WalkItem list"

datatype FileProvider = FolderSource Folder | ZipSource "ZipFile list"

definition FolderSource_OpenFile :: "Folder \<Rightarrow> string \<Rightarrow> error + ReadCloser" where
  "FolderSource_OpenFile fs path = os_Open fs path"

fun Walk :: "WalkItem list \<Rightarrow> (string \<Rightarrow> 'b \<Rightarrow> error option \<times> 'b) \<Rightarrow> 'b \<Rightarrow> error option \<times> 'b" where
  "Walk [] traverseFn book = (None, book)"
| "Walk (w # ws) traverseFn book =
     (case w_err w of
        Some e \<Rightarrow> (Some e, book)
      | None \<Rightarrow>
          if w_isDir w then Walk ws traverseFn book
          else (case traverseFn (w_rel w) book of
                  (Some e, book') \<Rightarrow> (Some e, book')
                | (None, book') \<Rightarrow> Walk ws traverseFn book'))"

definition FolderSource_Traverse ::
  "Folder \<Rightarrow> (string \<Rightarrow> 'b \<Rightarrow> error option \<times> 'b) \<Rightarrow> 'b \<Rightarrow> error option \<times> 'b" where
  "FolderSource_Traverse fs traverseFn book = Walk (walked fs) traverseFn book"

fun ZipSource_OpenFile :: "ZipFile list \<Rightarrow> string \<Rightarrow> error + ReadCloser" where
  "ZipSource_OpenFile [] path = Inl ErrNotExist"
| "ZipSource_OpenFile (f # fs) path =
     (if ToLower (Name f) = path then Open f else ZipSource_OpenFile fs path)"

fun ZipSource_Traverse ::
  "ZipFile list \<Rightarrow> (string \<Rightarrow> 'b \<Rightarrow> error option \<times> 'b) \<Rightarrow> 'b \<Rightarrow> error option \<times> 'b" where
  "ZipSource_Traverse [] traverseFn book = (None, book)"
| "ZipSource_Traverse (f # fs) traverseFn book =
     (case traverseFn (Name f) book of
        (Some e, book') \<Rightarrow> (Some e, book')
      | (None, book') \<Rightarrow> ZipSource_Traverse fs traverseFn book')"

definition OpenFile :: "FileProvider \<Rightarrow> string \<Rightarrow> error + ReadCloser" where
  "OpenFile fp path =
     (case fp of
        FolderSource fs \<Rightarrow> FolderSource_OpenFile fs path
      | ZipSource zs \<Rightarrow> ZipSource_OpenFile zs path)"

definition Traverse ::
  "FileProvider \<Rightarrow> (string \<Rightarrow> 'b \<Rightarrow> error option \<times> 'b) \<Rightarrow> 'b \<Rightarrow> error option \<times> 'b" where
  "Traverse fp traverseFn book =
     (case fp of
        FolderSource fs \<Rightarrow> FolderSource_Traverse fs traverseFn book
      | ZipSource zs \<Rightarrow> ZipSource_Traverse zs traverseFn book)"

section \<open>The book container\<close>

text \<open>
  The type \<open>Epub\<close> and its methods are not part of \<open>main.go\<close>.  The functions of
  \<open>main.go\<close> are therefore modelled over any container: a state of type \<open>'b\<close> and the
  methods they call.  A method that returns an error returns it together with the
  state it leaves behind.
\<close>

record 'b Book =
  SetCoverPage :: "string \<Rightarrow> bytes \<Rightarrow> 'b \<Rightarrow> 'b"
  AddFile :: "string \<Rightarrow> bytes \<Rightarrow> 'b \<Rightarrow> error option \<times> 'b"
  AddChapter :: "string \<Rightarrow> bytes \<Rightarrow> int \<Rightarrow> 'b \<Rightarrow> error option \<times> 'b"
  MaxDepth :: "'b \<Rightarrow> int"

section \<open>Cover page and supporting files\<close>

definition setCoverPage :: "'b Book \<Rightarrow> FileProvider \<Rightarrow> 'b \<Rightarrow> error option \<times> 'b" where
  \<comment> \<open>the \<open>e\<close> bound by the \<open>if\<close> statement shadows the outer one, and the outer one,
      which is \<open>nil\<close> once the entry is open, is what the function returns\<close>
  "setCoverPage bk fp book =
     (case OpenFile fp ''cover.html'' of
        Inl e \<Rightarrow> (Some e, book)
      | Inr f \<Rightarrow>
          (let e = None in
           case ReadAll f of
             (data, None) \<Rightarrow> (e, SetCoverPage bk ''cover.html'' data book)
           | (data, Some e') \<Rightarrow> (e, book)))"

definition traverse :: "'b Book \<Rightarrow> FileProvider \<Rightarrow> string \<Rightarrow> 'b \<Rightarrow> error option \<times> 'b" where
  "traverse bk fp path book =
     (let p = ToLower path in
      if p = ''book.ini'' \<or> p = ''book.html'' \<or> p = ''cover.html'' then (None, book)
      else
        (case OpenFile fp path of
           Inl e \<Rightarrow> (Some e, book)
         | Inr rc \<Rightarrow>
             (case ReadAll rc of
                (data, Some e) \<Rightarrow> (Some e, book)
              | (data, None) \<Rightarrow> AddFile bk path data book)))"

definition addFilesToBook :: "'b Book \<Rightarrow> FileProvider \<Rightarrow> 'b \<Rightarrow> error option \<times> 'b" where
  "addFilesToBook bk fp book = Traverse fp (traverse bk fp) book"

section \<open>The chapter segmenter\<close>

definition footer :: string where
  "footer = TAB # ''</body>'' @ NL # ''</html>''"

text \<open>
  The first loop of \<open>addChaptersToBook\<close>: it copies lines into \<open>header\<close> up to and
  including the first line that \<open>reBody\<close> matches, and returns the error of
  \<open>ReadLine\<close> when the input ends before that.  It yields the header and the reader
  positioned after the body line.
\<close>

fun prologue :: "string list \<Rightarrow> string \<Rightarrow> error + (string \<times> string list)" where
  "prologue [] header = Inl EOF"
| "prologue (l # br) header =
     (let header' = header @ l @ [NL]
      in if MatchString reBody l then Inr (header', br) else prologue br header')"

text \<open>
  The second loop, with the local variables \<open>buf\<close>, \<open>depth\<close> and \<open>title\<close> as
  arguments.  It ends with \<open>Inl\<close> when \<open>AddChapter\<close> fails in the loop (the
  \<open>return e\<close> there), and with the variables and the book at \<open>io.EOF\<close> otherwise.
  \<open>buf.Bytes()\<close> is passed to \<open>AddChapter\<close> as the value it has at the call.
\<close>

fun accumulate ::
  "'b Book \<Rightarrow> int \<Rightarrow> string \<Rightarrow> string list \<Rightarrow> bytes \<Rightarrow> int \<Rightarrow> string \<Rightarrow> 'b
     \<Rightarrow> (error \<times> 'b) + (bytes \<times> int \<times> string \<times> 'b)" where
  "accumulate bk maxDepth header [] buf depth title book = Inr (buf, depth, title, book)"
| "accumulate bk maxDepth header (l # br) buf depth title book =
     (case checkNewChapter l of
        (nd, nt) \<Rightarrow>
          if nd > 0 \<and> nd \<le> maxDepth then
            (if length buf > 0 then
               (case AddChapter bk title (buf @ footer) depth book of
                  (Some e, book') \<Rightarrow> Inl (e, book')
                | (None, book') \<Rightarrow>
                    accumulate bk maxDepth header br ([] @ header @ l @ [NL]) nd nt book')
             else accumulate bk maxDepth header br (buf @ header @ l @ [NL]) nd nt book)
          else accumulate bk maxDepth header br (buf @ l @ [NL]) depth title book)"

definition addChaptersToBook ::
  "'b Book \<Rightarrow> FileProvider \<Rightarrow> int \<Rightarrow> 'b \<Rightarrow> error option \<times> 'b" where
  \<comment> \<open>the error of the last \<open>AddChapter\<close> is assigned and then dropped by \<open>return nil\<close>\<close>
  "addChaptersToBook bk fp maxDepth book =
     (case OpenFile fp ''book.html'' of
        Inl e \<Rightarrow> (Some e, book)
      | Inr f \<Rightarrow>
          (case prologue (rc_lines f) [] of
             Inl e \<Rightarrow> (Some e, book)
           | Inr (header, br) \<Rightarrow>
               (case accumulate bk maxDepth header br [] 1 [] book of
                  Inl (e, book') \<Rightarrow> (Some e, book')
                | Inr (buf, depth, title, book') \<Rightarrow>
                    if length buf > 0
                    then (case AddChapter bk title buf depth book' of
                            (e, book'') \<Rightarrow> (None, book''))
                    else (None, book'))))"

section \<open>Observing the calls made on the container\<close>

text \<open>
  What a function of \<open>main.go\<close> does to the book is the sequence of method calls it
  makes.  \<open>traced bk\<close> is the container \<open>bk\<close> with a log beside its state: every call
  is passed on to \<open>bk\<close> and appended to the log with its arguments and, where the
  method returns one, its error.  The chapters emitted by the segmenter are the
  \<open>AddChapter\<close> calls in the log, whether the container accepted them or not; the
  registered assets are the \<open>AddFile\<close> calls that returned no error.
\<close>

record Chapter =
  c_title :: string
  c_content :: bytes
  c_depth :: int

datatype call =
    SetCoverPage_call string bytes
  | AddFile_call string bytes "error option"
  | AddChapter_call Chapter "error option"

definition traced :: "'b Book \<Rightarrow> ('b \<times> call list) Book" where
  "traced bk =
     \<lparr> SetCoverPage = (\<lambda>name data (b, log).
          (SetCoverPage bk name data b, log @ [SetCoverPage_call name data])),
       AddFile = (\<lambda>path data (b, log).
          case AddFile bk path data b of
            (e, b') \<Rightarrow> (e, (b', log @ [AddFile_call path data e]))),
       AddChapter = (\<lambda>title data depth (b, log).
          case AddChapter bk title data depth b of
            (e, b') \<Rightarrow>
              (e, (b', log @ [AddChapter_call
                     \<lparr>c_title = title, c_content = data, c_depth = depth\<rparr> e]))),
       MaxDepth = (\<lambda>(b, log). MaxDepth bk b) \<rparr>"

fun chapters_of :: "call list \<Rightarrow> Chapter list" where
  "chapters_of [] = []"
| "chapters_of (AddChapter_call c e # log) = c # chapters_of log"
| "chapters_of (x # log) = chapters_of log"


fun covers_of :: "call list \<Rightarrow> (string \<times> bytes) list" where
  "covers_of [] = []"
| "covers_of (SetCoverPage_call name data # log) = (name, data) # covers_of log"
| "covers_of (x # log) = covers_of log"

definition emitted :: "'b Book \<Rightarrow> FileProvider \<Rightarrow> int \<Rightarrow> 'b \<Rightarrow> Chapter list" where
  "emitted bk fp maxDepth book =
     chapters_of (snd (snd (addChaptersToBook (traced bk) fp maxDepth (book, []))))"




section \<open>A container after the specification\<close>

text \<open>
  Modelled from the spec: the container component (type \<open>Epub\<close> with \<open>SetCoverPage\<close>,
  \<open>AddFile\<close>, \<open>AddChapter\<close> and \<open>MaxDepth\<close>), whose code is not in \<open>main.go\<close>.
  Section 6 of the specification gives \<open>setCoverPage(name, bytes)\<close>,
  \<open>addFile(path, bytes) -> ok | NameCollision\<close>,
  \<open>addChapter(title, bytes, depth) -> ok | DepthExceeded\<close> and \<open>maxDepth() -> integer\<close>;
  section 4.5 says that a chapter deeper than the supported maximum is rejected.
  A rejected call leaves the book as it was.
\<close>

record Epub =
  cover :: "(string \<times> bytes) option"
  files :: "(string \<times> bytes) list"
  chapters :: "Chapter list"

definition Epub_Book :: "int \<Rightarrow> Epub Book" where
  \<comment> \<open>Modelled from the spec: the methods of the container whose \<open>MaxDepth()\<close> is \<open>m\<close>\<close>
  "Epub_Book m =
     \<lparr> SetCoverPage = (\<lambda>name data b. b\<lparr>cover := Some (name, data)\<rparr>),
       AddFile = (\<lambda>path data b.
          if path \<in> set (map fst (files b)) then (Some NameCollision, b)
          else (None, b\<lparr>files := files b @ [(path, data)]\<rparr>)),
       AddChapter = (\<lambda>title data depth b.
          if depth > m then (Some DepthExceeded, b)
          else (None, b\<lparr>chapters := chapters b @
                  [\<lparr>c_title = title, c_content = data, c_depth = depth\<rparr>]\<rparr>)),
       MaxDepth = (\<lambda>b. m) \<rparr>"

definition NewEpub :: Epub where
  "NewEpub = \<lparr>cover = None, files = [], chapters = []\<rparr>"

section \<open>Notions of the specification\<close>

text \<open>
  The Envelope of a document is the header that the first loop captures, and its body
  lines are the lines after the body-open line.
\<close>

definition Envelope :: "string list \<Rightarrow> bytes" where
  "Envelope doc = (case prologue doc [] of Inl e \<Rightarrow> [] | Inr (header, br) \<Rightarrow> header)"


definition unlines :: "string list \<Rightarrow> bytes" where
  "unlines ls = concat (map (\<lambda>l. l @ [NL]) ls)"


definition TrimSuffix :: "bytes \<Rightarrow> bytes \<Rightarrow> bytes" where
  "TrimSuffix p s = (if suffix p s then take (length s - length p) s else s)"


definition contains_line :: "bytes \<Rightarrow> string \<Rightarrow> bool" where
  \<comment> \<open>\<open>l\<close> is one of the lines of \<open>s\<close>\<close>
  "contains_line s l = sublist (NL # l @ [NL]) (NL # s)"

text \<open>
  A heading line in the words of the specification.  After stripping spaces and tabs
  at both ends, the line is an opening heading tag of level \<open>n\<close>, the inner text and the
  closing tag of the same level.  An opening heading tag has the tag name \<open>h\<close> or \<open>H\<close>
  followed by the digit of the level, and after the name either nothing or attributes
  set off by a space or a tab.  A tag marker is the character that opens a tag.
\<close>

definition is_blank :: "char \<Rightarrow> bool" where
  "is_blank c = (c = CHR '' '' \<or> c = TAB)"

definition strip :: "string \<Rightarrow> string" where
  "strip s = rev (dropWhile is_blank (rev (dropWhile is_blank s)))"

definition level_digit :: "nat \<Rightarrow> char" where
  "level_digit n = ''0123456789'' ! n"

definition heading_line :: "string \<Rightarrow> nat \<Rightarrow> string \<Rightarrow> bool" where
  "heading_line l n t =
     (\<exists>h a c. strip l = CHR ''<'' # h # level_digit n # a @ ''>'' @ t
                  @ ''</'' @ [c, level_digit n] @ ''>''
        \<and> h \<in> set ''hH'' \<and> c \<in> set ''hH'' \<and> 1 \<le> n \<and> n \<le> 6
        \<and> (a = [] \<or> is_blank (hd a)) \<and> CHR ''>'' \<notin> set a \<and> CHR ''<'' \<notin> set t)"

text \<open>
  What the pattern \<open>reHeader\<close> accepts as the opening tag: the tag name need not end
  after the digit, any characters other than \<open>>\<close> may follow it.
\<close>

definition loose_heading_line :: "string \<Rightarrow> nat \<Rightarrow> string \<Rightarrow> bool" where
  "loose_heading_line l n t =
     (\<exists>h a c. strip l = CHR ''<'' # h # level_digit n # a @ ''>'' @ t
                  @ ''</'' @ [c, level_digit n] @ ''>''
        \<and> h \<in> set ''hH'' \<and> c \<in> set ''hH'' \<and> 1 \<le> n \<and> n \<le> 6
        \<and> CHR ''>'' \<notin> set a \<and> CHR ''<'' \<notin> set t)"

section \<open>Auxiliary notions and concrete inputs\<close>


definition content_log :: "call list \<Rightarrow> bool" where
  "content_log log =
     (\<forall>c\<in>set (chapters_of log). c_content c \<noteq> [] \<and> TrimSuffix footer (c_content c) \<noteq> [])"


text \<open>
  The text a capture group gains from a run of characters, and the character classes
  of \<open>reHeader\<close> as predicates.
\<close>

definition pushes :: "string \<Rightarrow> string option \<Rightarrow> string option" where
  "pushes xs cur = (case cur of None \<Rightarrow> None | Some g \<Rightarrow> Some (g @ xs))"

definition hH :: "char \<Rightarrow> bool" where
  "hH c = (c = CHR ''h'' \<or> c = CHR ''H'')"

definition lv :: "char \<Rightarrow> bool" where
  "lv c = (c \<in> set ''123456'')"

definition gt :: "char \<Rightarrow> bool" where
  "gt c = (c = CHR ''>'')"

definition lt :: "char \<Rightarrow> bool" where
  "lt c = (c = CHR ''<'')"

text \<open>
  A reader over the given lines, each ended by a newline, and an archive that holds
  one document.
\<close>

definition lines_reader :: "string list \<Rightarrow> ReadCloser" where
  "lines_reader ls = \<lparr>rc_data = unlines ls, rc_fail = None\<rparr>"

definition book_archive :: "string list \<Rightarrow> FileProvider" where
  "book_archive doc = ZipSource [\<lparr>Name = ''book.html'', Open = Inr (lines_reader doc)\<rparr>]"

text \<open>A reader whose content cannot be read to the end.\<close>

definition broken_reader :: ReadCloser where
  "broken_reader = \<lparr>rc_data = ''<ht'', rc_fail = Some ErrRead\<rparr>"

definition broken_cover_archive :: FileProvider where
  "broken_cover_archive = ZipSource [\<lparr>Name = ''cover.html'', Open = Inr broken_reader\<rparr>]"

text \<open>An archive with one picture whose name has upper-case letters.\<close>

definition picture_archive :: "ZipFile list" where
  "picture_archive = [\<lparr>Name = ''Images/A.png'', Open = Inr (lines_reader [''png''])\<rparr>]"



section \<open>Basic facts\<close>

lemma unlines_append: "unlines (xs @ ys) = unlines xs @ unlines ys"
  by (simp add: unlines_def)

lemma unlines_Cons: "unlines (x # xs) = x @ NL # unlines xs"
  by (simp add: unlines_def)

lemma unlines_Nil: "unlines [] = []"
  by (simp add: unlines_def)

lemma footer_nonempty: "footer \<noteq> []"
  by (simp add: footer_def)

lemma ToLower_book_html: "ToLower ''book.html'' = ''book.html''"
  by code_simp

lemma OpenFile_book_archive: "OpenFile (book_archive doc) ''book.html'' = Inr (lines_reader doc)"
  by (simp add: OpenFile_def book_archive_def ToLower_book_html)

subsection \<open>The first loop\<close>


lemma prologue_body:
  "\<forall>l\<in>set pre. \<not> MatchString reBody l \<Longrightarrow> MatchString reBody b \<Longrightarrow>
   prologue (pre @ b # body) header = Inr (header @ unlines (pre @ [b]), body)"
  by (induction pre arbitrary: header) (simp_all add: Let_def unlines_Cons unlines_Nil)

lemma prologue_Inr:
  "prologue doc header = Inr (h, br) \<Longrightarrow>
   \<exists>pre b. doc = pre @ b # br \<and> (\<forall>l\<in>set pre. \<not> MatchString reBody l) \<and> MatchString reBody b
      \<and> h = header @ unlines (pre @ [b])"
proof (induction doc arbitrary: header)
  case Nil
  then show ?case by simp
next
  case (Cons l doc)
  show ?case
  proof (cases "MatchString reBody l")
    case True
    with Cons.prems have "h = header @ l @ [NL]" "br = doc" by (simp_all add: Let_def)
    then have "l # doc = [] @ l # br \<and> (\<forall>x\<in>set []. \<not> MatchString reBody x) \<and> MatchString reBody l
        \<and> h = header @ unlines ([] @ [l])"
      using True by (simp add: unlines_Cons unlines_Nil)
    then show ?thesis by blast
  next
    case False
    with Cons.prems have "prologue doc (header @ l @ [NL]) = Inr (h, br)" by (simp add: Let_def)
    from Cons.IH[OF this] obtain pre b where
      "doc = pre @ b # br" "\<forall>x\<in>set pre. \<not> MatchString reBody x" "MatchString reBody b"
      "h = (header @ l @ [NL]) @ unlines (pre @ [b])" by blast
    then have "l # doc = (l # pre) @ b # br \<and> (\<forall>x\<in>set (l # pre). \<not> MatchString reBody x)
        \<and> MatchString reBody b \<and> h = header @ unlines ((l # pre) @ [b])"
      using False by (simp add: unlines_Cons)
    then show ?thesis by blast
  qed
qed

subsection \<open>The log of a traced container\<close>

lemma chapters_of_append: "chapters_of (xs @ ys) = chapters_of xs @ chapters_of ys"
  by (induction xs rule: chapters_of.induct) simp_all


lemma traced_AddChapter:
  "AddChapter (traced bk) t c d (b, log) =
     (fst (AddChapter bk t c d b),
      (snd (AddChapter bk t c d b),
       log @ [AddChapter_call \<lparr>c_title = t, c_content = c, c_depth = d\<rparr>
                (fst (AddChapter bk t c d b))]))"
  by (simp add: traced_def split: prod.splits)


text \<open>Tracing changes neither the error returned nor the book.\<close>

lemma accumulate_traced:
  "map_sum (\<lambda>(e, (b', log')). (e, b'))
           (\<lambda>(buf', depth', title', (b', log')). (buf', depth', title', b'))
     (accumulate (traced bk) maxDepth header br buf depth title (book, log))
   = accumulate bk maxDepth header br buf depth title book"
proof (induction br arbitrary: buf depth title book log)
  case Nil
  show ?case by simp
next
  case (Cons l br)
  obtain nd nt where c: "checkNewChapter l = (nd, nt)" by (cases "checkNewChapter l")
  obtain e1 b1 where a: "AddChapter bk title (buf @ footer) depth book = (e1, b1)"
    by (cases "AddChapter bk title (buf @ footer) depth book")
  show ?case
    by (simp add: c a traced_AddChapter Cons.IH split: option.splits)
qed

lemma addChaptersToBook_traced:
  "fst (addChaptersToBook (traced bk) fp maxDepth (book, log))
     = fst (addChaptersToBook bk fp maxDepth book)
   \<and> fst (snd (addChaptersToBook (traced bk) fp maxDepth (book, log)))
       = snd (addChaptersToBook bk fp maxDepth book)"
proof (cases "OpenFile fp ''book.html''")
  case (Inl err)
  then show ?thesis by (simp add: addChaptersToBook_def)
next
  case (Inr f)
  show ?thesis
  proof (cases "prologue (rc_lines f) []")
    case (Inl err)
    then show ?thesis using Inr by (simp add: addChaptersToBook_def)
  next
    case r: (Inr hb)
    obtain header br where hb: "hb = (header, br)" by (cases hb)
    show ?thesis
    proof (cases "accumulate (traced bk) maxDepth header br [] 1 [] (book, log)")
      case (Inl x)
      obtain e b' log' where x: "x = (e, (b', log'))" by (metis surj_pair)
      have "accumulate bk maxDepth header br [] 1 [] book = Inl (e, b')"
        using accumulate_traced[of bk maxDepth header br "[]" 1 "[]" book log] Inl x by simp
      then show ?thesis using Inl x by (simp add: addChaptersToBook_def Inr r hb)
    next
      case i: (Inr y)
      obtain buf' depth' title' b' log' where y: "y = (buf', depth', title', (b', log'))"
        by (metis surj_pair)
      have "accumulate bk maxDepth header br [] 1 [] book = Inr (buf', depth', title', b')"
        using accumulate_traced[of bk maxDepth header br "[]" 1 "[]" book log] i y by simp
      then show ?thesis using i y
        by (simp add: addChaptersToBook_def Inr r hb traced_AddChapter split: prod.splits)
    qed
  qed
qed

subsection \<open>Traversal\<close>









subsection \<open>The second loop\<close>

lemma TrimSuffix_append: "TrimSuffix p (s @ p) = s"
  by (simp add: TrimSuffix_def suffix_def)

lemma footer_last: "last footer = CHR ''>''"
  by (simp add: footer_def)

lemma TrimSuffix_footer_line:
  assumes "s \<noteq> []" "last s = NL"
  shows "TrimSuffix footer s = s"
proof -
  have "\<not> suffix footer s"
  proof
    assume "suffix footer s"
    then obtain x where "s = x @ footer" by (auto simp: suffix_def)
    then have "last s = last footer" using footer_nonempty by simp
    then show False using assms(2) by (simp add: footer_last NL_def)
  qed
  then show ?thesis by (simp add: TrimSuffix_def)
qed

lemma accumulate_content:
  assumes "content_log log" "buf = [] \<or> last buf = NL"
  shows "case accumulate (traced bk) maxDepth header br buf depth title (book, log) of
      Inl (e, (b', log')) \<Rightarrow> content_log log'
    | Inr (buf', depth', title', (b', log')) \<Rightarrow>
        content_log log' \<and> (buf' = [] \<or> last buf' = NL)"
  using assms
proof (induction br arbitrary: buf depth title book log)
  case Nil
  then show ?case by simp
next
  case (Cons l br)
  obtain nd nt where c: "checkNewChapter l = (nd, nt)" by (cases "checkNewChapter l")
  let ?call = "AddChapter_call \<lparr>c_title = title, c_content = buf @ footer, c_depth = depth\<rparr>
                 (fst (AddChapter bk title (buf @ footer) depth book))"
  have n: "buf \<noteq> [] \<Longrightarrow> content_log (log @ [?call])"
    using Cons.prems(1)
    by (simp add: content_log_def chapters_of_append footer_nonempty TrimSuffix_append)
  have 1: "last (buf @ l @ [NL]) = NL" "last (header @ l @ [NL]) = NL" by simp_all
  show ?case
    using Cons.IH[OF Cons.prems(1), of "buf @ l @ [NL]"]
      Cons.IH[OF Cons.prems(1), of "header @ l @ [NL]"]
      Cons.IH[OF n, of "header @ l @ [NL]"] Cons.prems n 1
    by (auto simp: c traced_AddChapter split: option.splits)
qed

subsection \<open>The heading detector on the lines of the scenario\<close>

lemma check_h1A: "checkNewChapter ''<h1>A</h1>'' = (1, ''A'')"
  by code_simp

lemma check_h2A1: "checkNewChapter ''<h2>A.1</h2>'' = (2, ''A.1'')"
  by code_simp

lemma check_h1B: "checkNewChapter ''<h1>B</h1>'' = (1, ''B'')"
  by code_simp

lemma check_p1: "checkNewChapter ''p1'' = (0, [])"
  by code_simp

lemma check_p2: "checkNewChapter ''p2'' = (0, [])"
  by code_simp

lemma check_p3: "checkNewChapter ''p3'' = (0, [])"
  by code_simp

lemma contains_line_second: "contains_line (e @ unlines [h, p] @ r) p"
proof -
  have "NL # e @ unlines [h, p] @ r = (NL # e @ h) @ (NL # p @ [NL]) @ r"
    by (simp add: unlines_def)
  then show ?thesis unfolding contains_line_def sublist_def by blast
qed

lemma reBody_html: "\<not> MatchString reBody ''<html>''"
  by code_simp

lemma reBody_body: "MatchString reBody ''<body>''"
  by code_simp



subsection \<open>The heading pattern\<close>

lemma pushes_Nil: "pushes [] cur = cur"
  by (simp add: pushes_def split: option.splits)

lemma pushes_push: "pushes xs (push c cur) = pushes (c # xs) cur"
  by (simp add: pushes_def push_def split: option.splits)

lemma run_Star_Cls:
  assumes "\<And>c. q c \<Longrightarrow> \<not> p c"
  shows "run (Star p # Cls q # its) s cur gs
       = run (Cls q # its) (dropWhile p s) (pushes (takeWhile p s) cur) gs"
proof (induction s arbitrary: cur)
  case Nil
  show ?case by simp
next
  case (Cons c s)
  show ?case
  proof (cases "p c")
    case True
    then have "\<not> q c" using assms by blast
    then show ?thesis using True Cons.IH[of "push c cur"]
      by (simp add: pushes_push split: option.splits)
  next
    case False
    then show ?thesis by (simp add: pushes_Nil)
  qed
qed

lemma run_Star_GClose_Cls:
  assumes "\<And>c. q c \<Longrightarrow> \<not> p c"
  shows "run (Star p # GClose # Cls q # its) s cur gs
       = run (GClose # Cls q # its) (dropWhile p s) (pushes (takeWhile p s) cur) gs"
proof (induction s arbitrary: cur)
  case Nil
  show ?case by (simp add: pushes_Nil)
next
  case (Cons c s)
  show ?case
  proof (cases "p c")
    case True
    then have "\<not> q c" using assms by blast
    then show ?thesis using True Cons.IH[of "push c cur"]
      by (simp add: pushes_push split: option.splits)
  next
    case False
    then show ?thesis by (simp add: pushes_Nil)
  qed
qed

lemma run_Star_end: "run [Star p] s cur gs = (if \<forall>c\<in>set s. p c then Some gs else None)"
  by (induction s arbitrary: cur) (auto split: option.splits)

lemma oneof_blank: "oneof [CHR '' '', TAB] = is_blank"
  by (auto simp: oneof_def is_blank_def fun_eq_iff)


lemma cls_simps:
  "oneof ''<'' = lt" "oneof ''>'' = gt" "oneof ''hH'' = hH" "oneof ''123456'' = lv"
  "noneof ''>'' = (\<lambda>c. \<not> gt c)" "noneof ''<'' = (\<lambda>c. \<not> lt c)"
  by (auto simp: oneof_def noneof_def lt_def gt_def hH_def lv_def fun_eq_iff)

lemma blank_not_lt: "lt c \<Longrightarrow> \<not> is_blank c"
  by (auto simp: lt_def is_blank_def TAB_def)

lemma find_reHeader:
  "FindStringSubmatch reHeader l =
     run [Cls lt, Cls hH, GOpen, Cls lv, GClose, Star (\<lambda>c. \<not> gt c), Cls gt,
          GOpen, Star (\<lambda>c. \<not> lt c), GClose, Cls lt, Cls (oneof ''/''), Cls hH,
          GOpen, Cls lv, GClose, Cls gt, Star is_blank] (dropWhile is_blank l) None [l]"
  unfolding FindStringSubmatch_def reHeader_def oneof_blank cls_simps
  by (subst run_Star_Cls) (simp_all add: blank_not_lt pushes_def)

lemma run_tail:
  "run [Cls lt, Cls (oneof ''/''), Cls hH, GOpen, Cls lv, GClose, Cls gt, Star is_blank] s None gs
   = (case s of
        a # b # c # d # e # r \<Rightarrow>
          if lt a \<and> b = CHR ''/'' \<and> hH c \<and> lv d \<and> gt e \<and> (\<forall>x\<in>set r. is_blank x)
          then Some (gs @ [[d]]) else None
      | _ \<Rightarrow> None)"
  by (simp add: run_Star_end push_def oneof_def split: list.splits)

lemma run_inner:
  "run [GOpen, Star (\<lambda>c. \<not> lt c), GClose, Cls lt, Cls (oneof ''/''), Cls hH,
          GOpen, Cls lv, GClose, Cls gt, Star is_blank] s cur gs
   = (case dropWhile (\<lambda>c. \<not> lt c) s of
        a # b # c # d # e # r \<Rightarrow>
          if b = CHR ''/'' \<and> hH c \<and> lv d \<and> gt e \<and> (\<forall>x\<in>set r. is_blank x)
          then Some (gs @ [takeWhile (\<lambda>c. \<not> lt c) s, [d]]) else None
      | _ \<Rightarrow> None)"
proof -
  have "run [GOpen, Star (\<lambda>c. \<not> lt c), GClose, Cls lt, Cls (oneof ''/''), Cls hH,
          GOpen, Cls lv, GClose, Cls gt, Star is_blank] s cur gs
     = run [Cls lt, Cls (oneof ''/''), Cls hH, GOpen, Cls lv, GClose, Cls gt, Star is_blank]
         (dropWhile (\<lambda>c. \<not> lt c) s) None (gs @ [takeWhile (\<lambda>c. \<not> lt c) s])"
    by (simp add: run_Star_GClose_Cls pushes_def)
  also have "\<dots> = (case dropWhile (\<lambda>c. \<not> lt c) s of
        a # b # c # d # e # r \<Rightarrow>
          if b = CHR ''/'' \<and> hH c \<and> lv d \<and> gt e \<and> (\<forall>x\<in>set r. is_blank x)
          then Some (gs @ [takeWhile (\<lambda>c. \<not> lt c) s, [d]]) else None
      | _ \<Rightarrow> None)"
  proof (cases "dropWhile (\<lambda>c. \<not> lt c) s")
    case Nil
    show ?thesis unfolding run_tail Nil by simp
  next
    case (Cons a r)
    then have "lt a" using hd_dropWhile[of "\<lambda>c. \<not> lt c" s] by auto
    then show ?thesis unfolding run_tail Cons by (simp split: list.splits)
  qed
  finally show ?thesis .
qed

lemma run_open:
  "run [Star (\<lambda>c. \<not> gt c), Cls gt,
          GOpen, Star (\<lambda>c. \<not> lt c), GClose, Cls lt, Cls (oneof ''/''), Cls hH,
          GOpen, Cls lv, GClose, Cls gt, Star is_blank] s None gs
   = (case dropWhile (\<lambda>c. \<not> gt c) s of
        [] \<Rightarrow> None
      | g # s2 \<Rightarrow>
         (case dropWhile (\<lambda>c. \<not> lt c) s2 of
            a # b # c # d # e # r \<Rightarrow>
              if b = CHR ''/'' \<and> hH c \<and> lv d \<and> gt e \<and> (\<forall>x\<in>set r. is_blank x)
              then Some (gs @ [takeWhile (\<lambda>c. \<not> lt c) s2, [d]]) else None
          | _ \<Rightarrow> None))"
proof -
  have step: "run (Star (\<lambda>c. \<not> gt c) # Cls gt # its) s None gs
      = run (Cls gt # its) (dropWhile (\<lambda>c. \<not> gt c) s) None gs" for its
    by (subst run_Star_Cls) (simp_all add: pushes_def)
  show ?thesis
  proof (cases "dropWhile (\<lambda>c. \<not> gt c) s")
    case Nil
    show ?thesis unfolding step Nil by simp
  next
    case (Cons g s2)
    then have "gt g" using hd_dropWhile[of "\<lambda>c. \<not> gt c" s] by auto
    then show ?thesis unfolding step Cons
      by (simp add: push_def run_inner del: run.simps(7,8))
  qed
qed

lemma find_reHeader_scan:
  "FindStringSubmatch reHeader l =
    (case dropWhile is_blank l of
       a # h # d # s \<Rightarrow>
         if lt a \<and> hH h \<and> lv d then
           (case dropWhile (\<lambda>c. \<not> gt c) s of
              [] \<Rightarrow> None
            | g # s2 \<Rightarrow>
               (case dropWhile (\<lambda>c. \<not> lt c) s2 of
                  a' # b # c # d2 # e # r \<Rightarrow>
                    if b = CHR ''/'' \<and> hH c \<and> lv d2 \<and> gt e \<and> (\<forall>x\<in>set r. is_blank x)
                    then Some ([l, [d]] @ [takeWhile (\<lambda>c. \<not> lt c) s2, [d2]]) else None
                | _ \<Rightarrow> None))
         else None
     | _ \<Rightarrow> None)"
  unfolding find_reHeader
  by (simp add: push_def run_open del: run.simps(6) dropWhile_eq_Nil_conv split: list.splits)

lemma strip_middle:
  assumes "\<forall>x\<in>set w1. is_blank x" "\<forall>x\<in>set w2. is_blank x"
    and "m \<noteq> []" "\<not> is_blank (hd m)" "\<not> is_blank (last m)"
  shows "strip (w1 @ m @ w2) = m"
proof -
  obtain x m' where m: "m = x # m'" using assms(3) by (cases m) auto
  have 1: "dropWhile is_blank (w1 @ m @ w2) = m @ w2"
    using assms(1,4) by (simp add: dropWhile_append2 m)
  obtain y m'' where r: "rev m = y # m''" using assms(3) by (cases "rev m") auto
  have "y = last m" using r assms(3) by (metis hd_rev list.sel(1))
  then have "dropWhile is_blank (rev m) = rev m"
    using assms(5) unfolding r by simp
  moreover have "dropWhile is_blank (rev w2 @ rev m) = dropWhile is_blank (rev m)"
    using assms(2) by (intro dropWhile_append2) simp
  ultimately have 2: "dropWhile is_blank (rev w2 @ rev m) = rev m"
    by simp
  show ?thesis
    unfolding strip_def 1 by (simp add: 2)
qed

lemma strip_decomp:
  "l = takeWhile is_blank l @ strip l @ rev (takeWhile is_blank (rev (dropWhile is_blank l)))"
proof -
  let ?x = "dropWhile is_blank l"
  have "?x = rev (dropWhile is_blank (rev ?x)) @ rev (takeWhile is_blank (rev ?x))"
    by (metis rev_append rev_rev_ident takeWhile_dropWhile_id)
  then have "?x = strip l @ rev (takeWhile is_blank (rev ?x))"
    by (simp add: strip_def)
  then show ?thesis
    by (metis takeWhile_dropWhile_id)
qed

lemma strip_dropWhile:
  assumes "strip l = x # m" "\<not> is_blank x"
  shows "\<exists>w2. dropWhile is_blank l = x # m @ w2 \<and> (\<forall>c\<in>set w2. is_blank c)"
proof -
  let ?w1 = "takeWhile is_blank l"
  let ?w2 = "rev (takeWhile is_blank (rev (dropWhile is_blank l)))"
  have l: "l = ?w1 @ (x # m) @ ?w2" using strip_decomp[of l] assms(1) by simp
  have w1: "\<forall>c\<in>set ?w1. is_blank c" by (metis set_takeWhileD)
  have w2: "\<forall>c\<in>set ?w2. is_blank c" by (metis set_rev set_takeWhileD)
  have "dropWhile is_blank (?w1 @ (x # m) @ ?w2) = x # m @ ?w2"
    using w1 assms(2) by (simp add: dropWhile_append2)
  then have "dropWhile is_blank l = x # m @ ?w2" using l by simp
  then show ?thesis using w2 by blast
qed

lemma digit_lv:
  assumes "1 \<le> n" "n \<le> 6"
  shows "lv (level_digit n) \<and> byte_sub (of_char (level_digit n)) (of_char CHR ''0'') = n"
proof -
  from assms have "n = 1 \<or> n = 2 \<or> n = 3 \<or> n = 4 \<or> n = 5 \<or> n = 6" by arith
  then show ?thesis
    by (elim disjE) (simp_all add: level_digit_def lv_def byte_sub_def)
qed

lemma lv_digit:
  assumes "lv c"
  shows "c = level_digit (byte_sub (of_char c) (of_char CHR ''0''))
       \<and> 1 \<le> byte_sub (of_char c) (of_char CHR ''0'')
       \<and> byte_sub (of_char c) (of_char CHR ''0'') \<le> 6"
proof -
  from assms have "c = CHR ''1'' \<or> c = CHR ''2'' \<or> c = CHR ''3'' \<or> c = CHR ''4''
      \<or> c = CHR ''5'' \<or> c = CHR ''6''"
    by (simp add: lv_def)
  then show ?thesis
    by (elim disjE) (simp_all add: level_digit_def byte_sub_def)
qed

lemma blank_chars: "\<not> is_blank CHR ''<''" "\<not> is_blank CHR ''>''"
  by (simp_all add: is_blank_def TAB_def)

lemma lt_gt: "lt CHR ''<''" "gt CHR ''>''"
  by (simp_all add: lt_def gt_def)

lemma heading_to_code:
  assumes "loose_heading_line l n t"
  shows "checkNewChapter l = (int n, t)"
proof -
  let ?d = "level_digit n"
  from assms obtain h a c where
    st: "strip l = CHR ''<'' # (h # ?d # a @ ''>'' @ t @ ''</'' @ [c, ?d] @ ''>'')"
    and h: "hH h" and c: "hH c" and n: "1 \<le> n" "n \<le> 6"
    and a: "CHR ''>'' \<notin> set a" and t: "CHR ''<'' \<notin> set t"
    by (auto simp: loose_heading_line_def hH_def)
  from strip_dropWhile[OF st blank_chars(1)] obtain w2 where
    d: "dropWhile is_blank l
          = CHR ''<'' # h # ?d # (a @ CHR ''>'' # (t @ CHR ''<'' # CHR ''/'' # c # ?d # CHR ''>'' # w2))"
    and w2: "\<forall>x\<in>set w2. is_blank x"
    by auto
  have a': "dropWhile (\<lambda>c. \<not> gt c) (a @ CHR ''>'' # s) = CHR ''>'' # s" for s
    using a by (subst dropWhile_append2) (auto simp: gt_def)
  have t1: "dropWhile (\<lambda>c. \<not> lt c) (t @ CHR ''<'' # s) = CHR ''<'' # s" for s
    using t by (subst dropWhile_append2) (auto simp: lt_def)
  have t2: "takeWhile (\<lambda>c. \<not> lt c) (t @ CHR ''<'' # s) = t" for s
    using t by (subst takeWhile_append2) (auto simp: lt_def)
  have dl: "lv ?d" "byte_sub (of_char ?d) (of_char CHR ''0'') = n"
    using digit_lv[OF n] by simp_all
  have "FindStringSubmatch reHeader l = Some [l, [?d], t, [?d]]"
    unfolding find_reHeader_scan d
    using h c w2 dl(1) by (simp add: a' t1 t2 lt_gt)
  then show ?thesis
    using dl(2) by (simp add: checkNewChapter_def)
qed

lemma find_reHeader_Some:
  assumes "FindStringSubmatch reHeader l = Some m"
  shows "\<exists>h d s s2 c d2 r.
      dropWhile is_blank l = CHR ''<'' # h # d # s \<and> hH h \<and> lv d
    \<and> dropWhile (\<lambda>c. \<not> gt c) s = CHR ''>'' # s2
    \<and> dropWhile (\<lambda>c. \<not> lt c) s2 = CHR ''<'' # CHR ''/'' # c # d2 # CHR ''>'' # r
    \<and> hH c \<and> lv d2 \<and> (\<forall>x\<in>set r. is_blank x)
    \<and> m = [l, [d], takeWhile (\<lambda>c. \<not> lt c) s2, [d2]]"
proof -
  obtain x h d s where 1: "dropWhile is_blank l = x # h # d # s" "lt x" "hH h" "lv d"
    using assms unfolding find_reHeader_scan
    by (auto split: list.splits if_splits simp del: dropWhile_eq_Nil_conv)
  obtain g s2 where 2: "dropWhile (\<lambda>c. \<not> gt c) s = g # s2"
    using assms
    by (auto split: list.splits if_splits simp: find_reHeader_scan 1
          simp del: dropWhile_eq_Nil_conv)
  have g: "gt g" using hd_dropWhile[of "\<lambda>c. \<not> gt c" s] 2 by auto
  obtain y b c d2 e r where 3: "dropWhile (\<lambda>c. \<not> lt c) s2 = y # b # c # d2 # e # r"
    "b = CHR ''/''" "hH c" "lv d2" "gt e" "\<forall>x\<in>set r. is_blank x"
    "m = [l, [d], takeWhile (\<lambda>c. \<not> lt c) s2, [d2]]"
    using assms
    by (auto split: list.splits if_splits simp: find_reHeader_scan 1 2
          simp del: dropWhile_eq_Nil_conv)
  have y: "lt y" using hd_dropWhile[of "\<lambda>c. \<not> lt c" s2] 3(1) by auto
  show ?thesis
    using 1 2 3 g y by (auto simp: lt_def gt_def)
qed

lemma code_to_heading:
  assumes "checkNewChapter l = (d, t)" "d \<noteq> 0"
  shows "0 < d \<and> loose_heading_line l (nat d) t"
proof -
  obtain m where m: "FindStringSubmatch reHeader l = Some m"
    using assms by (cases "FindStringSubmatch reHeader l") (auto simp: checkNewChapter_def)
  from find_reHeader_Some[OF m] obtain h c1 s s2 c c2 r where
    1: "dropWhile is_blank l = CHR ''<'' # h # c1 # s" "hH h" "lv c1"
    and 2: "dropWhile (\<lambda>c. \<not> gt c) s = CHR ''>'' # s2"
    and 3: "dropWhile (\<lambda>c. \<not> lt c) s2 = CHR ''<'' # CHR ''/'' # c # c2 # CHR ''>'' # r"
      "hH c" "lv c2" "\<forall>x\<in>set r. is_blank x"
    and mm: "m = [l, [c1], takeWhile (\<lambda>c. \<not> lt c) s2, [c2]]"
    by blast
  let ?n = "byte_sub (of_char c1) (of_char CHR ''0'')"
  let ?A = "takeWhile (\<lambda>c. \<not> gt c) s"
  let ?T = "takeWhile (\<lambda>c. \<not> lt c) s2"
  have eq: "c1 = c2" and dt: "d = int ?n" "t = ?T"
    using assms unfolding checkNewChapter_def m mm by (auto split: if_splits)
  have n: "c1 = level_digit ?n" "1 \<le> ?n" "?n \<le> 6"
    using lv_digit[OF 1(3)] by simp_all
  let ?M = "CHR ''<'' # h # c1 # ?A @ ''>'' @ ?T @ ''</'' @ [c, c1] @ ''>''"
  have s: "s = ?A @ CHR ''>'' # s2" using 2 by (metis takeWhile_dropWhile_id)
  have s2: "s2 = ?T @ CHR ''<'' # CHR ''/'' # c # c2 # CHR ''>'' # r"
    using 3(1) by (metis takeWhile_dropWhile_id)
  have "l = takeWhile is_blank l @ dropWhile is_blank l" by simp
  also have "dropWhile is_blank l = ?M @ r"
    unfolding 1(1) using s s2 eq by simp
  finally have l: "l = takeWhile is_blank l @ ?M @ r" .
  have w1: "\<forall>x\<in>set (takeWhile is_blank l). is_blank x" by (metis set_takeWhileD)
  have "strip (takeWhile is_blank l @ ?M @ r) = ?M"
    by (rule strip_middle[OF w1 3(4)]) (simp_all add: blank_chars)
  then have st: "strip l = ?M" using l by simp
  have A: "CHR ''>'' \<notin> set ?A" using set_takeWhileD[of "CHR ''>''" "\<lambda>c. \<not> gt c" s]
    by (auto simp: gt_def)
  have T: "CHR ''<'' \<notin> set ?T" using set_takeWhileD[of "CHR ''<''" "\<lambda>c. \<not> lt c" s2]
    by (auto simp: lt_def)
  have "loose_heading_line l ?n ?T"
    unfolding loose_heading_line_def
    apply (rule exI[of _ h], rule exI[of _ ?A], rule exI[of _ c])
    using st n 1(2) 3(2) A T by (simp add: hH_def)
  then show ?thesis using dt n by simp
qed

lemma code_zero:
  assumes "checkNewChapter l = (0, t)"
  shows "t = []"
proof -
  have "fst (checkNewChapter l) = 0 \<longrightarrow> snd (checkNewChapter l) = []"
  proof (cases "FindStringSubmatch reHeader l")
    case None
    then show ?thesis by (simp add: checkNewChapter_def)
  next
    case (Some m)
    from find_reHeader_Some[OF Some] obtain c1 T c2 where
      m: "m = [l, [c1], T, [c2]]" "lv c1" by blast
    show ?thesis
      using lv_digit[OF m(2)] by (auto simp: checkNewChapter_def Some m)
  qed
  then show ?thesis using assms by simp
qed

section \<open>The claims\<close>

subsection \<open>C1\<close>

text \<open>
  Claim C1.  A document whose body lines are \<open><h1>A</h1>\<close>, \<open>p1\<close>, \<open><h2>A.1</h2>\<close>,
  \<open>p2\<close>, \<open><h1>B</h1>\<close>, \<open>p3\<close>, segmented with \<open>maxDepth = 2\<close>, yields exactly three
  chapters in this order: \<open>A\<close> of depth 1 whose content contains the line \<open>p1\<close>,
  \<open>A.1\<close> of depth 2 whose content contains the line \<open>p2\<close>, and \<open>B\<close> of depth 1 whose
  content contains the line \<open>p3\<close>.  The lines before the body are arbitrary: \<open>pre\<close>
  holds no body-open line and \<open>b\<close> is one; the container accepts chapters up to depth
  2.  The contents are given in full: the first two chapters end with the closing
  footer, the last one does not.
\<close>

theorem C1_scenario:
  assumes "OpenFile fp ''book.html'' = Inr f"
    and "rc_lines f
           = pre @ b # [''<h1>A</h1>'', ''p1'', ''<h2>A.1</h2>'', ''p2'', ''<h1>B</h1>'', ''p3'']"
    and "\<forall>l\<in>set pre. \<not> MatchString reBody l"
    and "MatchString reBody b"
    and "\<forall>t c d s. d \<le> 2 \<longrightarrow> fst (AddChapter bk t c d s) = None"
  shows "emitted bk fp 2 book =
      [\<lparr>c_title = ''A'',
         c_content = unlines (pre @ [b]) @ unlines [''<h1>A</h1>'', ''p1''] @ footer,
         c_depth = 1\<rparr>,
       \<lparr>c_title = ''A.1'',
         c_content = unlines (pre @ [b]) @ unlines [''<h2>A.1</h2>'', ''p2''] @ footer,
         c_depth = 2\<rparr>,
       \<lparr>c_title = ''B'',
         c_content = unlines (pre @ [b]) @ unlines [''<h1>B</h1>'', ''p3''] @ [],
         c_depth = 1\<rparr>]
    \<and> contains_line (c_content (emitted bk fp 2 book ! 0)) ''p1''
    \<and> contains_line (c_content (emitted bk fp 2 book ! 1)) ''p2''
    \<and> contains_line (c_content (emitted bk fp 2 book ! 2)) ''p3''"
proof -
  have acc: "\<And>t c d s. d \<le> 2 \<Longrightarrow> fst (AddChapter bk t c d s) = None"
    using assms(5) by blast
  have em: "emitted bk fp 2 book =
      [\<lparr>c_title = ''A'',
         c_content = unlines (pre @ [b]) @ unlines [''<h1>A</h1>'', ''p1''] @ footer,
         c_depth = 1\<rparr>,
       \<lparr>c_title = ''A.1'',
         c_content = unlines (pre @ [b]) @ unlines [''<h2>A.1</h2>'', ''p2''] @ footer,
         c_depth = 2\<rparr>,
       \<lparr>c_title = ''B'',
         c_content = unlines (pre @ [b]) @ unlines [''<h1>B</h1>'', ''p3''] @ [],
         c_depth = 1\<rparr>]"
    using assms(1-4)
    by (simp add: emitted_def addChaptersToBook_def prologue_body
        check_h1A check_h2A1 check_h1B check_p1 check_p2 check_p3
        traced_AddChapter acc chapters_of_append unlines_def)
  show ?thesis
    unfolding em
    using contains_line_second[of "unlines (pre @ [b])" _ _ footer]
      contains_line_second[of "unlines (pre @ [b])" _ _ "[]"]
    by simp
qed

theorem C1_scenario_witness:
  "emitted (Epub_Book 6)
     (book_archive ([''<html>''] @ ''<body>''
        # [''<h1>A</h1>'', ''p1'', ''<h2>A.1</h2>'', ''p2'', ''<h1>B</h1>'', ''p3''])) 2 NewEpub =
      [\<lparr>c_title = ''A'',
         c_content = unlines ([''<html>''] @ [''<body>'']) @ unlines [''<h1>A</h1>'', ''p1''] @ footer,
         c_depth = 1\<rparr>,
       \<lparr>c_title = ''A.1'',
         c_content = unlines ([''<html>''] @ [''<body>'']) @ unlines [''<h2>A.1</h2>'', ''p2''] @ footer,
         c_depth = 2\<rparr>,
       \<lparr>c_title = ''B'',
         c_content = unlines ([''<html>''] @ [''<body>'']) @ unlines [''<h1>B</h1>'', ''p3''] @ [],
         c_depth = 1\<rparr>]"
proof -
  let ?doc = "[''<html>''] @ ''<body>''
        # [''<h1>A</h1>'', ''p1'', ''<h2>A.1</h2>'', ''p2'', ''<h1>B</h1>'', ''p3'']"
  have 1: "OpenFile (book_archive ?doc) ''book.html'' = Inr (lines_reader ?doc)"
    by (rule OpenFile_book_archive)
  have 2: "rc_lines (lines_reader ?doc) = ?doc"
    by code_simp
  have 3: "\<forall>l\<in>set [''<html>'']. \<not> MatchString reBody l"
    by (simp add: reBody_html)
  have 5: "\<forall>t c d s. d \<le> 2 \<longrightarrow> fst (AddChapter (Epub_Book 6) t c d s) = None"
    by (simp add: Epub_Book_def)
  show ?thesis
    using C1_scenario [OF 1 2 3 reBody_body 5, of NewEpub] by blast
qed

subsection \<open>C2\<close>

text \<open>
  Claim C2.  Every emitted chapter's content begins with the Envelope, in particular
  the first, untitled chapter when content precedes the first qualifying heading.
  The code starts with an empty buffer and writes the header only when a qualifying
  heading is met (\<open>buf.WriteString(header)\<close>), so the chapter collected before the
  first heading has no Envelope.  For the document \<open><html>\<close>, \<open><body>\<close>, \<open>p0\<close>,
  \<open><h1>A</h1>\<close>, \<open>p1\<close> the first chapter is \<open>p0\<close> followed by the closing footer, and
  the Envelope is not a prefix of it.
\<close>

theorem C2_untitled_chapter_has_no_envelope:
  "emitted (Epub_Book 6)
     (book_archive [''<html>'', ''<body>'', ''p0'', ''<h1>A</h1>'', ''p1'']) 1 NewEpub
   = [\<lparr>c_title = [], c_content = ''p0'' @ [NL] @ footer, c_depth = 1\<rparr>,
      \<lparr>c_title = ''A'',
        c_content = unlines [''<html>'', ''<body>''] @ unlines [''<h1>A</h1>'', ''p1''],
        c_depth = 1\<rparr>]
   \<and> Envelope [''<html>'', ''<body>'', ''p0'', ''<h1>A</h1>'', ''p1'']
       = unlines [''<html>'', ''<body>'']
   \<and> \<not> prefix (Envelope [''<html>'', ''<body>'', ''p0'', ''<h1>A</h1>'', ''p1''])
          (''p0'' @ [NL] @ footer)"
  by code_simp

subsection \<open>C3\<close>

text \<open>
  Claim C3.  \<open>checkNewChapter\<close> yields a marker exactly for the lines that, stripped of
  spaces and tabs at both ends, are an opening heading tag of a level 1 to 6, inner
  text without a tag marker and the closing tag of the same level, and yields depth 0
  otherwise.  The pattern accepts any characters other than \<open>>\<close> between the level
  digit and the end of the opening tag, so the tag name need not end after the digit:
  \<open><h12>A</h1>\<close> is given depth 1 and the title \<open>A\<close>, although \<open><h12>\<close> is not
  an opening heading tag of any level.
\<close>

theorem C3_loose_tag_name_is_accepted:
  "checkNewChapter ''<h12>A</h1>'' = (1, ''A'')
   \<and> \<not> (\<exists>n t. heading_line ''<h12>A</h1>'' n t)"
proof -
  have c: "checkNewChapter ''<h12>A</h1>'' = (1, ''A'')"
    by code_simp
  have s: "strip ''<h12>A</h1>'' = ''<h12>A</h1>''"
    by code_simp
  have "\<not> heading_line ''<h12>A</h1>'' n t" for n t
  proof
    assume "heading_line ''<h12>A</h1>'' n t"
    then obtain h a c where
      q: "''<h12>A</h1>'' = CHR ''<'' # h # level_digit n # a @ ''>'' @ t
            @ ''</'' @ [c, level_digit n] @ ''>''"
      and a: "a = [] \<or> is_blank (hd a)"
      unfolding heading_line_def s by blast
    from q have e: "''2>A'' = a @ CHR ''>'' # t"
      by simp
    show False
    proof (cases a)
      case Nil
      then show ?thesis using e by simp
    next
      case (Cons x a')
      then have "x = CHR ''2''" using e by simp
      then show ?thesis using a Cons by (simp add: is_blank_def TAB_def)
    qed
  qed
  then show ?thesis using c by blast
qed

text \<open>
  Claim C3, amended.  \<open>checkNewChapter l\<close> returns depth \<open>d > 0\<close> and title \<open>t\<close> exactly
  when the line, stripped of spaces and tabs at both ends, is \<open><\<close>, \<open>h\<close> or \<open>H\<close>, the digit
  of \<open>d\<close> (1 to 6), any characters other than \<open>>\<close>, \<open>>\<close>, the text \<open>t\<close> without \<open><\<close>,
  and the closing tag \<open></\<close>, \<open>h\<close> or \<open>H\<close>, the same digit, \<open>>\<close>; the title is the inner
  text as it stands.  On every other line it returns depth 0 and the empty title.
\<close>

theorem C3_heading_detector:
  "(checkNewChapter l = (d, t))
     = ((0 < d \<and> loose_heading_line l (nat d) t)
        \<or> (d = 0 \<and> t = [] \<and> \<not> (\<exists>n t'. loose_heading_line l n t')))"
proof
  assume c: "checkNewChapter l = (d, t)"
  show "(0 < d \<and> loose_heading_line l (nat d) t)
        \<or> (d = 0 \<and> t = [] \<and> \<not> (\<exists>n t'. loose_heading_line l n t'))"
  proof (cases "d = 0")
    case False
    then show ?thesis using code_to_heading[OF c] by simp
  next
    case True
    have "t = []" using c True code_zero by simp
    moreover have "\<not> (\<exists>n t'. loose_heading_line l n t')"
    proof
      assume "\<exists>n t'. loose_heading_line l n t'"
      then obtain n t' where h: "loose_heading_line l n t'" by blast
      then have "1 \<le> n" by (auto simp: loose_heading_line_def)
      with heading_to_code[OF h] c True show False by simp
    qed
    ultimately show ?thesis using True by simp
  qed
next
  assume "(0 < d \<and> loose_heading_line l (nat d) t)
        \<or> (d = 0 \<and> t = [] \<and> \<not> (\<exists>n t'. loose_heading_line l n t'))"
  then show "checkNewChapter l = (d, t)"
  proof
    assume "0 < d \<and> loose_heading_line l (nat d) t"
    then show ?thesis using heading_to_code[of l "nat d" t] by simp
  next
    assume z: "d = 0 \<and> t = [] \<and> \<not> (\<exists>n t'. loose_heading_line l n t')"
    obtain d' t' where c: "checkNewChapter l = (d', t')" by (cases "checkNewChapter l")
    have "d' = 0" using code_to_heading[OF c] z by blast
    then show ?thesis using c code_zero z by simp
  qed
qed

theorem C3_heading_detector_witness:
  "checkNewChapter ''<h1>A</h1>'' = (1, ''A'') \<and> loose_heading_line ''<h1>A</h1>'' (nat 1) ''A''"
  using C3_heading_detector [of "''<h1>A</h1>''" 1 "''A''"] check_h1A by simp

subsection \<open>C4\<close>


subsection \<open>C5\<close>

text \<open>
  Claim C5.  Opening an entry of an archive succeeds whenever some entry name equals
  the requested path up to letter case.  \<open>ZipSource.OpenFile\<close> lower-cases the stored
  name but compares it with the requested path as given, so a path with an upper-case
  letter is never found: neither the entry \<open>Images/A.png\<close> under its own name, which is
  how \<open>addFilesToBook\<close> asks for it, nor the entry \<open>cover.html\<close> under \<open>Cover.html\<close>.
\<close>

theorem C5_upper_case_path_is_not_found:
  "ZipSource_OpenFile picture_archive ''Images/A.png'' = Inl ErrNotExist
   \<and> map Name picture_archive = [''Images/A.png'']
   \<and> ZipSource_OpenFile [\<lparr>Name = ''cover.html'', Open = Inr (lines_reader [])\<rparr>] ''Cover.html''
       = Inl ErrNotExist
   \<and> ToLower ''Cover.html'' = ToLower ''cover.html''
   \<and> addFilesToBook (Epub_Book 6) (ZipSource picture_archive) NewEpub = (Some ErrNotExist, NewEpub)"
  by code_simp

subsection \<open>C6\<close>


subsection \<open>C7\<close>

text \<open>
  Claim C7.  The cover stage fails when the cover entry cannot be opened and when it
  opens but cannot be read; the cover is registered exactly when the read succeeds.
  The error of \<open>ReadAll\<close> is bound to a new variable \<open>e\<close> inside the \<open>if\<close> statement,
  and \<open>return e\<close> returns the outer one, which is \<open>nil\<close>.  With a cover entry that
  opens and then fails to read, the stage registers no cover and reports no error.
\<close>

theorem C7_cover_read_error_is_dropped:
  "OpenFile broken_cover_archive ''cover.html'' = Inr broken_reader
   \<and> ReadAll broken_reader = (''<ht'', Some ErrRead)
   \<and> setCoverPage (traced (Epub_Book 6)) broken_cover_archive (NewEpub, []) = (None, (NewEpub, []))
   \<and> setCoverPage (Epub_Book 6) broken_cover_archive NewEpub = (None, NewEpub)"
  by code_simp

subsection \<open>C8\<close>



subsection \<open>C9\<close>




subsection \<open>C10\<close>

text \<open>
  Claim C10.  Whatever the document, the split depth and the container, no chapter
  passed to \<open>AddChapter\<close> has empty content, whether it is emitted at a heading or at
  the end of input; both emissions are guarded by the check that the buffer is not
  empty, so the content is more than the closing footer that is appended at a heading.
  In particular a heading right after the body-open line opens the first chapter and
  closes none.
\<close>

theorem C10_no_empty_chapter:
  "\<forall>c\<in>set (emitted bk fp maxDepth book).
      c_content c \<noteq> [] \<and> TrimSuffix footer (c_content c) \<noteq> []"
proof -
  have e: "content_log []" by (simp add: content_log_def)
  have "content_log (snd (snd (addChaptersToBook (traced bk) fp maxDepth (book, []))))"
  proof (cases "OpenFile fp ''book.html''")
    case (Inl err)
    then show ?thesis using e by (simp add: addChaptersToBook_def)
  next
    case (Inr f)
    show ?thesis
    proof (cases "prologue (rc_lines f) []")
      case (Inl err)
      then show ?thesis using e Inr by (simp add: addChaptersToBook_def)
    next
      case r: (Inr hb)
      obtain header br where hb: "hb = (header, br)" by (cases hb)
      show ?thesis
        using accumulate_content[OF e, of "[]" bk maxDepth header br 1 "[]" book]
        by (auto simp: addChaptersToBook_def Inr r hb traced_AddChapter content_log_def
              chapters_of_append TrimSuffix_footer_line split: sum.splits)
    qed
  qed
  then show ?thesis by (simp add: emitted_def content_log_def)
qed

theorem C10_no_empty_chapter_witness:
  "emitted (Epub_Book 6) (book_archive [''<body>'', ''<h1>A</h1>'']) 1 NewEpub
     = [\<lparr>c_title = ''A'', c_content = unlines [''<body>'', ''<h1>A</h1>''], c_depth = 1\<rparr>]
   \<and> c_content (emitted (Epub_Book 6) (book_archive [''<body>'', ''<h1>A</h1>'']) 1 NewEpub ! 0)
        \<noteq> []
   \<and> TrimSuffix footer
        (c_content (emitted (Epub_Book 6) (book_archive [''<body>'', ''<h1>A</h1>'']) 1 NewEpub ! 0))
        \<noteq> []"
proof -
  have v: "emitted (Epub_Book 6) (book_archive [''<body>'', ''<h1>A</h1>'']) 1 NewEpub
     = [\<lparr>c_title = ''A'', c_content = unlines [''<body>'', ''<h1>A</h1>''], c_depth = 1\<rparr>]"
    by code_simp
  have m: "emitted (Epub_Book 6) (book_archive [''<body>'', ''<h1>A</h1>'']) 1 NewEpub ! 0
      \<in> set (emitted (Epub_Book 6) (book_archive [''<body>'', ''<h1>A</h1>'']) 1 NewEpub)"
    unfolding v by simp
  show ?thesis
    using v m
      C10_no_empty_chapter [of "Epub_Book 6" "book_archive [''<body>'', ''<h1>A</h1>'']" 1 NewEpub]
    by blast
qed

end
